theory Spec2Isabelle
  imports Complex_Main "HOL-Library.Word"
begin

unbundle bit_operations_syntax

section \<open>The arbitrary-precision integer (BigInteger over GNU MP)\<close>

text \<open>
  The GMP-only big integer header keeps one field, \<^verbatim>\<open>mpz_t mpz\<close>: an unbounded signed
  integer. It is modelled as \<^typ>\<open>int\<close>. The GMP calls below carry the meaning the GMP
  manual gives them; the operators of the class are then translated line by line.
\<close>

type_synonym BigInteger = int

definition mpz_mul_2exp :: "int \<Rightarrow> nat \<Rightarrow> int" where
  "mpz_mul_2exp x i = x * 2 ^ i"

definition mpz_fdiv_q_2exp :: "int \<Rightarrow> nat \<Rightarrow> int" where
  "mpz_fdiv_q_2exp x i = x div 2 ^ i"

definition mpz_tdiv_q_2exp :: "int \<Rightarrow> nat \<Rightarrow> int" where
  "mpz_tdiv_q_2exp x i = sgn x * (\<bar>x\<bar> div 2 ^ i)"

definition mpz_and :: "int \<Rightarrow> int \<Rightarrow> int" where
  "mpz_and x y = x AND y"

definition mpz_ior :: "int \<Rightarrow> int \<Rightarrow> int" where
  "mpz_ior x y = x OR y"

definition mpz_tstbit :: "int \<Rightarrow> nat \<Rightarrow> int" where
  "mpz_tstbit x i = (if bit x i then 1 else 0)"

text \<open>
  \<^verbatim>\<open>BigInteger::operator>>(sq)\<close>: returns a copy for a zero shift and zero for a zero
  value; otherwise a loop over \<^verbatim>\<open>i = 0 .. sq\<close> overwrites the result in every round, with
  the floor quotient for a negative value and the truncated quotient otherwise. The
  result register starts at zero (\<^verbatim>\<open>mpz_init2\<close>). The loop bound \<^verbatim>\<open>sq + 1U\<close> is
  computed in the unsigned type of the shift count and does not wrap for the counts
  used here (1, and qubit indices).
\<close>

definition shr :: "BigInteger \<Rightarrow> nat \<Rightarrow> BigInteger" where
  "shr x sq =
     (if sq = 0 then x
      else if x = 0 then 0
      else if x < 0
        then fold (\<lambda>i r. let r1 = mpz_mul_2exp x i in mpz_fdiv_q_2exp x i) [0..<sq + 1] 0
        else fold (\<lambda>i r. let r1 = mpz_mul_2exp x i in mpz_tdiv_q_2exp x i) [0..<sq + 1] 0)"

text \<open>
  \<^verbatim>\<open>BigInteger::operator>>=(sq)\<close>: nothing for a zero shift; otherwise the same loop with
  the floor quotient only.
\<close>

definition shr_assign :: "BigInteger \<Rightarrow> nat \<Rightarrow> BigInteger" where
  "shr_assign x sq =
     (if sq = 0 then x
      else fold (\<lambda>i r. let r1 = mpz_mul_2exp x i in mpz_fdiv_q_2exp x i) [0..<sq + 1] 0)"

text \<open>\<^verbatim>\<open>BigInteger::operator~\<close>: \<^verbatim>\<open>mpz_mul_si(result, mpz, -1L)\<close>.\<close>

definition bi_not :: "BigInteger \<Rightarrow> BigInteger" where
  "bi_not x = x * (- 1)"

text \<open>\<^verbatim>\<open>bi_decrement\<close>: \<^verbatim>\<open>*pBigInt -= value\<close>, that is \<^verbatim>\<open>mpz_sub_ui\<close>.\<close>

definition bi_decrement :: "BigInteger \<Rightarrow> nat \<Rightarrow> BigInteger" where
  "bi_decrement x v = x - int v"

text \<open>\<^verbatim>\<open>bi_and_1\<close>: \<^verbatim>\<open>mpz_tstbit(left.mpz, 0)\<close>.\<close>

definition bi_and_1 :: "BigInteger \<Rightarrow> int" where
  "bi_and_1 x = mpz_tstbit x 0"

text \<open>\<^verbatim>\<open>bi_compare_0\<close> of the GMP-only header: \<^verbatim>\<open>left.is_zero() ? 1 : 0\<close>.\<close>

definition bi_compare_0 :: "BigInteger \<Rightarrow> int" where
  "bi_compare_0 left = (if left = 0 then 1 else 0)"

text \<open>
  \<^verbatim>\<open>bi_compare_0\<close> of the header that still keeps the word array \<^verbatim>\<open>bits[]\<close>: the
  first non-zero word returns 1, and 0 is returned when the loop runs out.
\<close>

fun bi_compare_0_bits :: "64 word list \<Rightarrow> int" where
  "bi_compare_0_bits [] = 0"
| "bi_compare_0_bits (w # ws) = (if w \<noteq> 0 then 1 else bi_compare_0_bits ws)"

text \<open>\<^verbatim>\<open>bi_rshift_ip\<close>: \<^verbatim>\<open>tmp = *left >> right; *left = tmp\<close>.\<close>

definition bi_rshift_ip :: "BigInteger \<Rightarrow> nat \<Rightarrow> BigInteger" where
  "bi_rshift_ip left right = shr left right"

text \<open>
  \<^verbatim>\<open>BigInteger::log2\<close>. The counter is an \<^verbatim>\<open>int32_t\<close>; it counts the rounds of the
  loop and is modelled as an unbounded integer (it cannot wrap before 2^31 rounds).
\<close>

function log2_loop :: "BigInteger \<Rightarrow> int \<Rightarrow> int" where
  "log2_loop bip r = (if bip > 0 then log2_loop (shr_assign bip 1) (r + 1) else r)"
  by pat_completeness auto
termination
  by (relation "measure (\<lambda>(bip, r). nat bip)")
     (auto simp: shr_assign_def mpz_fdiv_q_2exp_def mpz_mul_2exp_def)

declare log2_loop.simps [simp del]

definition BigInteger_log2 :: "BigInteger \<Rightarrow> int" where
  "BigInteger_log2 rhs =
     (let bip = shr rhs 1 in
      if bip < 0 \<or> bip = 0 then - 1 else log2_loop bip 0)"

text \<open>
  \<^verbatim>\<open>bi_log2\<close>: the loop runs while \<^verbatim>\<open>bi_compare_0(p) != 0\<close>. Nothing bounds the number
  of rounds, so a run that never leaves the loop is the value \<open>None\<close>.
\<close>

partial_function (option) bi_log2_loop :: "BigInteger \<Rightarrow> int \<Rightarrow> int option" where
  "bi_log2_loop p pw =
     (if bi_compare_0 p \<noteq> 0 then bi_log2_loop (bi_rshift_ip p 1) (pw + 1) else Some pw)"

definition bi_log2 :: "BigInteger \<Rightarrow> int option" where
  "bi_log2 n = bi_log2_loop (shr n 1) 0"

text \<open>
  \<^verbatim>\<open>QBdt::RemovePower\<close>:
  \<^verbatim>\<open>bi_decrement(&power, 1U); return (perm & power) | ((perm >> 1U) & ~power);\<close>
\<close>

definition RemovePower :: "BigInteger \<Rightarrow> BigInteger \<Rightarrow> BigInteger" where
  "RemovePower perm pwr =
     (let pwr = bi_decrement pwr 1 in
      mpz_ior (mpz_and perm pwr) (mpz_and (shr perm 1) (bi_not pwr)))"

text \<open>\<^verbatim>\<open>QBdt::SelectBit\<close>: \<^verbatim>\<open>(size_t) bi_and_1(perm >> bit)\<close>.\<close>

definition SelectBit :: "BigInteger \<Rightarrow> nat \<Rightarrow> nat" where
  "SelectBit perm b = nat (bi_and_1 (shr perm b))"


text \<open>
  \<^verbatim>\<open>RemovePower\<close> with the complement left open. The older header keeps, under
  \<^verbatim>\<open>#if 0\<close>, the operator that complements every word of the array; on an unbounded
  two's complement integer that operator is \<^term>\<open>NOT\<close>.
\<close>

definition RemovePower_with :: "(BigInteger \<Rightarrow> BigInteger) \<Rightarrow> BigInteger \<Rightarrow> BigInteger \<Rightarrow> BigInteger" where
  "RemovePower_with cmpl perm pwr =
     (let pwr = bi_decrement pwr 1 in
      mpz_ior (mpz_and perm pwr) (mpz_and (shr perm 1) (cmpl pwr)))"

text \<open>
  \<^verbatim>\<open>QBdt::ProbParity\<close>. The single-qubit probability \<^verbatim>\<open>Prob\<close>, the free function
  \<^verbatim>\<open>log2\<close> on permutation indices and the state-vector engine reached through
  \<^verbatim>\<open>ExecuteAsStateVector\<close> are defined outside the sources and are parameters.
\<close>

definition ProbParity ::
  "(int \<Rightarrow> real) \<Rightarrow> (BigInteger \<Rightarrow> int) \<Rightarrow> (BigInteger \<Rightarrow> real) \<Rightarrow> BigInteger \<Rightarrow> real" where
  "ProbParity Prob log2f engProbParity msk =
     (if bi_compare_0 msk = 0 then 0
      else let maskMin1 = bi_decrement msk 1 in
        if bi_compare_0 (mpz_and msk maskMin1) = 0 then Prob (log2f msk)
        else engProbParity msk)"

text \<open>\<^verbatim>\<open>QBdt::ForceMParity\<close>, with \<^verbatim>\<open>ForceM\<close> and the engine as parameters.\<close>

definition ForceMParity ::
  "(int \<Rightarrow> bool \<Rightarrow> bool \<Rightarrow> bool) \<Rightarrow> (BigInteger \<Rightarrow> int) \<Rightarrow>
   (BigInteger \<Rightarrow> bool \<Rightarrow> bool \<Rightarrow> bool) \<Rightarrow> BigInteger \<Rightarrow> bool \<Rightarrow> bool \<Rightarrow> bool" where
  "ForceMParity ForceM log2f engForceMParity msk result doForce =
     (if bi_compare_0 msk = 0 then False
      else let maskMin1 = bi_decrement msk 1 in
        if bi_compare_0 (mpz_and msk maskMin1) = 0 then ForceM (log2f msk) result doForce
        else engForceMParity msk result doForce)"

section \<open>The decision-tree register\<close>

text \<open>
  A node holds a complex scale and two child references, either of which may be null.
  A 2x2 gate matrix is the array of its four entries.
\<close>

type_synonym mtrx = "complex list"

datatype QBdtNode =
  QBdtNode (scale: complex) (branch0: "QBdtNode option") (branch1: "QBdtNode option")

text \<open>\<^verbatim>\<open>leaf->branches[k]\<close>; the index is always a value of \<^const>\<open>SelectBit\<close>, 0 or 1.\<close>

definition branches :: "QBdtNode \<Rightarrow> nat \<Rightarrow> QBdtNode option" where
  "branches nd k = (if k = 0 then branch0 nd else branch1 nd)"

definition set_branch :: "QBdtNode \<Rightarrow> nat \<Rightarrow> QBdtNode \<Rightarrow> QBdtNode" where
  "set_branch nd k c =
     (if k = 0 then QBdtNode (scale nd) (Some c) (branch1 nd)
      else QBdtNode (scale nd) (branch0 nd) (Some c))"

definition set_scale :: "complex \<Rightarrow> QBdtNode \<Rightarrow> QBdtNode" where
  "set_scale c nd = QBdtNode c (branch0 nd) (branch1 nd)"

text \<open>
  The fields of \<^verbatim>\<open>QBdt\<close> that the traversal and flush code reads and writes. The ghost
  field \<open>applied\<close> is not in the source: it records every call of \<^verbatim>\<open>ApplySingle\<close>, in
  order, with its matrix and its target.
\<close>

record QBdt =
  qubitCount :: nat
  root :: QBdtNode
  shards :: "mtrx option list"
  applied :: "(mtrx \<times> nat) list"

text \<open>
  Members that \<^verbatim>\<open>qbdt.hpp\<close> declares or calls and whose bodies are outside the sources
  are parameters of the model: the effect of \<^verbatim>\<open>ApplySingle\<close> on the tree (\<open>commit\<close>),
  \<^verbatim>\<open>MpsShard::IsPhase\<close>, the default-constructed node, and the node operations
  \<^verbatim>\<open>Branch\<close>, \<^verbatim>\<open>PopStateVector\<close> and \<^verbatim>\<open>Prune\<close>.
\<close>

record collab =
  commit :: "mtrx \<Rightarrow> nat \<Rightarrow> QBdtNode \<Rightarrow> QBdtNode"
  IsPhase :: "mtrx \<Rightarrow> bool"
  new_node :: QBdtNode
  Branch :: "nat \<Rightarrow> QBdtNode \<Rightarrow> QBdtNode"
  PopStateVector :: "nat \<Rightarrow> QBdtNode \<Rightarrow> QBdtNode"
  Prune :: "nat \<Rightarrow> QBdtNode \<Rightarrow> QBdtNode"

text \<open>
  Modelled from the spec: \<^verbatim>\<open>ApplySingle\<close> is declared in \<^verbatim>\<open>qbdt.hpp\<close> and its body is
  missing. The spec calls it the commit primitive that applies the matrix at every node
  of the target's depth, so it changes the tree and nothing else.
\<close>

definition ApplySingle :: "collab \<Rightarrow> mtrx \<Rightarrow> nat \<Rightarrow> QBdt \<Rightarrow> QBdt" where
  "ApplySingle E m t st =
     st\<lparr>root := commit E m t (root st), applied := applied st @ [(m, t)]\<rparr>"

text \<open>
  A for-each loop whose body may hit undefined behaviour (\<open>None\<close>): the loop stops there.
\<close>

fun for_each :: "('s \<Rightarrow> 'a \<Rightarrow> 's option) \<Rightarrow> 'a list \<Rightarrow> 's \<Rightarrow> 's option" where
  "for_each body [] s = Some s"
| "for_each body (x # xs) s =
     (case body s x of None \<Rightarrow> None | Some s' \<Rightarrow> for_each body xs s')"

text \<open>
  \<^verbatim>\<open>DumpBuffers\<close> (\<^verbatim>\<open>qbdt.hpp\<close>, line 45): every slot of \<^verbatim>\<open>shards\<close> is set to null.
\<close>

definition DumpBuffers :: "QBdt \<Rightarrow> QBdt" where
  "DumpBuffers st =
     fold (\<lambda>i s. s\<lparr>shards := (shards s)[i := None]\<rparr>) [0..<length (shards st)] st"

text \<open>
  \<^verbatim>\<open>FlushBuffer(t)\<close> (line 51): the slot is cleared first, then the matrix is handed
  to \<^verbatim>\<open>ApplySingle\<close>. \<^verbatim>\<open>FlushBuffers\<close> (line 59) does this for every index. Indexing \<^verbatim>\<open>shards\<close> outside its size is undefined behaviour in
  the source and \<open>None\<close> here.
\<close>

definition FlushBuffer :: "collab \<Rightarrow> QBdt \<Rightarrow> nat \<Rightarrow> QBdt option" where
  "FlushBuffer E st t =
     (if t < length (shards st) then
        (case shards st ! t of
           None \<Rightarrow> Some st
         | Some g \<Rightarrow> Some (ApplySingle E g t (st\<lparr>shards := (shards st)[t := None]\<rparr>)))
      else None)"

definition FlushBuffers :: "collab \<Rightarrow> QBdt \<Rightarrow> QBdt option" where
  "FlushBuffers E st = for_each (FlushBuffer E) [0..<length (shards st)] st"

text \<open>
  The loop body that \<^verbatim>\<open>FlushIfBlocked(controls)\<close> (line 72) and
  \<^verbatim>\<open>FlushNonPhaseBuffers\<close> (line 82) share: a slot that holds a matrix which is not a
  phase matrix is cleared and the matrix committed.
\<close>

definition flush_non_phase :: "collab \<Rightarrow> QBdt \<Rightarrow> nat \<Rightarrow> QBdt option" where
  "flush_non_phase E st c =
     (if c < length (shards st) then
        (case shards st ! c of
           None \<Rightarrow> Some st
         | Some g \<Rightarrow>
             if \<not> IsPhase E g
             then Some (ApplySingle E g c (st\<lparr>shards := (shards st)[c := None]\<rparr>))
             else Some st)
      else None)"



definition FlushNonPhaseBuffers :: "collab \<Rightarrow> QBdt \<Rightarrow> QBdt option" where
  "FlushNonPhaseBuffers E st = for_each (flush_non_phase E) [0..<length (shards st)] st"

text \<open>
  Modelled from the spec: \<^verbatim>\<open>maxQPower\<close> is a member of the absent base class; the
  permutation space of \<open>n\<close> qubits is \<open>[0, 2^n)\<close>.
\<close>

definition maxQPower :: "QBdt \<Rightarrow> BigInteger" where
  "maxQPower st = 2 ^ qubitCount st"

text \<open>
  Modelled from the spec: \<^verbatim>\<open>_par_for\<close> is declared in \<^verbatim>\<open>qbdt.hpp\<close> and its body is
  missing. It calls the worker once for every index in \<open>[0, end)\<close> and returns when all
  calls are done; the order across workers is not fixed, and the indices are listed here
  in increasing order.
\<close>

definition par_for_indices :: "BigInteger \<Rightarrow> BigInteger list" where
  "par_for_indices e = map int [0..<nat e]"

text \<open>
  The cast \<^verbatim>\<open>(bitCapIntOcl)i\<close>: \<^verbatim>\<open>mpz_get_ui\<close> cut to the width \<open>w\<close> of \<^verbatim>\<open>bitCapIntOcl\<close>
  (8, 16, 32 or 64 bits, chosen by the build configuration), that is the low \<open>w\<close> bits
  of the absolute value.
\<close>

definition bitCapIntOcl_cast :: "nat \<Rightarrow> BigInteger \<Rightarrow> int" where
  "bitCapIntOcl_cast w i = \<bar>i\<bar> mod 2 ^ w"

text \<open>
  The inner loop of \<^verbatim>\<open>GetTraversal\<close> (lines 98 to 107): \<open>j\<close> runs up to
  \<^verbatim>\<open>qubitCount\<close>, the walk moves to the child selected by bit \<open>j\<close> and leaves the loop
  at a null child.
\<close>

function GetTraversal_loop :: "nat \<Rightarrow> BigInteger \<Rightarrow> nat \<Rightarrow> QBdtNode \<Rightarrow> complex \<Rightarrow> complex" where
  "GetTraversal_loop n i j leaf sc =
     (if j < n then
        (case branches leaf (SelectBit i j) of
           None \<Rightarrow> sc
         | Some l \<Rightarrow> GetTraversal_loop n i (j + 1) l (sc * scale l))
      else sc)"
  by pat_completeness auto
termination
  by (relation "measure (\<lambda>(n, i, j, leaf, sc). n - j)") auto

declare GetTraversal_loop.simps [simp del]

definition GetTraversal_worker :: "nat \<Rightarrow> nat \<Rightarrow> QBdtNode \<Rightarrow> BigInteger \<Rightarrow> int \<times> complex" where
  "GetTraversal_worker w n rt i =
     (bitCapIntOcl_cast w i, GetTraversal_loop n i 0 rt (scale rt))"

text \<open>
  \<^verbatim>\<open>GetTraversal\<close>: flush, then one call of the sink per index. The result is the
  register after the flush and the list of pairs handed to the sink.
\<close>

definition GetTraversal :: "collab \<Rightarrow> nat \<Rightarrow> QBdt \<Rightarrow> (QBdt \<times> (int \<times> complex) list) option" where
  "GetTraversal E w st =
     (case FlushBuffers E st of
        None \<Rightarrow> None
      | Some st' \<Rightarrow>
          Some (st', map (GetTraversal_worker w (qubitCount st') (root st'))
                         (par_for_indices (maxQPower st'))))"

text \<open>
  The inner loop of \<^verbatim>\<open>SetTraversal\<close> (lines 127 to 130) has no null test: following
  a null child is undefined behaviour (\<open>None\<close>). The caller's \<^verbatim>\<open>setLambda\<close> then mutates
  the leaf it is given; in the value model the changed leaf is put back along the path.
\<close>

function SetTraversal_leaf ::
  "nat \<Rightarrow> BigInteger \<Rightarrow> nat \<Rightarrow> (QBdtNode \<Rightarrow> QBdtNode) \<Rightarrow> QBdtNode \<Rightarrow> QBdtNode option" where
  "SetTraversal_leaf n i j f leaf =
     (if j < n then
        (case branches leaf (SelectBit i j) of
           None \<Rightarrow> None
         | Some l \<Rightarrow>
             map_option (set_branch leaf (SelectBit i j)) (SetTraversal_leaf n i (j + 1) f l))
      else Some (f leaf))"
  by pat_completeness auto
termination
  by (relation "measure (\<lambda>(n, i, j, f, leaf). n - j)") auto

declare SetTraversal_leaf.simps [simp del]

definition SetTraversal ::
  "collab \<Rightarrow> nat \<Rightarrow> (int \<Rightarrow> QBdtNode \<Rightarrow> QBdtNode) \<Rightarrow> QBdt \<Rightarrow> QBdt option" where
  "SetTraversal E w setLambda st =
     (let st1 = DumpBuffers st;
          st2 = st1\<lparr>root := Branch E (qubitCount st1) (new_node E)\<rparr>
      in case for_each
                (\<lambda>rt i. SetTraversal_leaf (qubitCount st2) i 0
                           (setLambda (bitCapIntOcl_cast w i)) rt)
                (par_for_indices (maxQPower st2)) (root st2) of
           None \<Rightarrow> None
         | Some rt \<Rightarrow>
             Some (st2\<lparr>root := Prune E (qubitCount st2)
                                 (PopStateVector E (qubitCount st2) rt)\<rparr>))"

text \<open>
  \<^verbatim>\<open>GetQuantumState\<close> and \<^verbatim>\<open>SetQuantumState\<close> on a caller's array: the sink stores the
  delivered amplitude at the delivered index, the source writes \<^verbatim>\<open>state[i]\<close> into the
  leaf's scale.
\<close>

definition GetQuantumState :: "collab \<Rightarrow> nat \<Rightarrow> QBdt \<Rightarrow> (QBdt \<times> (int \<times> complex) list) option" where
  "GetQuantumState E w st = GetTraversal E w st"

definition SetQuantumState :: "collab \<Rightarrow> nat \<Rightarrow> (int \<Rightarrow> complex) \<Rightarrow> QBdt \<Rightarrow> QBdt option" where
  "SetQuantumState E w state st = SetTraversal E w (\<lambda>i leaf. set_scale (state i) leaf) st"

text \<open>
  The reading of the spec that the traversal is compared with: the scales met on the
  path that the bits of the index select from the root, the walk ending at a null child,
  and their product.
\<close>

fun path_scales :: "QBdtNode \<Rightarrow> bool list \<Rightarrow> complex list" where
  "path_scales nd [] = [scale nd]"
| "path_scales nd (b # bs) =
     scale nd # (case (if b then branch1 nd else branch0 nd) of
                   None \<Rightarrow> []
                 | Some c \<Rightarrow> path_scales c bs)"

definition path_amplitude :: "QBdtNode \<Rightarrow> nat \<Rightarrow> int \<Rightarrow> complex" where
  "path_amplitude rt n i = prod_list (path_scales rt (map (bit i) [0..<n]))"

text \<open>The pending buffers of a register, in index order, as (matrix, qubit) pairs.\<close>

definition pending_at :: "QBdt \<Rightarrow> nat \<Rightarrow> (mtrx \<times> nat) list" where
  "pending_at st t = (case shards st ! t of None \<Rightarrow> [] | Some g \<Rightarrow> [(g, t)])"

definition pending :: "QBdt \<Rightarrow> (mtrx \<times> nat) list" where
  "pending st = concat (map (pending_at st) [0..<length (shards st)])"

text \<open>The calls of \<^verbatim>\<open>ApplySingle\<close> made between two states of a run.\<close>

definition commits_since :: "QBdt \<Rightarrow> QBdt \<Rightarrow> (mtrx \<times> nat) list" where
  "commits_since st st' = drop (length (applied st)) (applied st')"


section \<open>Sampling a joint outcome\<close>

text \<open>
  Modelled from the spec: \<^verbatim>\<open>MAllOptionalCollapse\<close> is declared in \<^verbatim>\<open>qbdt.hpp\<close> and its
  body is missing; only its callers \<^verbatim>\<open>SampleClone\<close> and \<^verbatim>\<open>MAll\<close> are in the sources.
  The spec, section 4.2: any measurement flushes the pending buffers. Section 4.5: the
  call samples a complete joint outcome in one root-to-leaf walk; at each node the
  branch is chosen with probability equal to that branch's locally renormalized squared
  magnitude; if \<^verbatim>\<open>isCollapsing\<close>, the tree is mutated in place to the sampled path,
  otherwise the tree is left untouched. So the model flushes first and walks the flushed
  tree. The uniform draws of the random generator are an argument, one draw per level;
  a draw is compared with the cumulative probability of branch 0. A null child counts
  as probability zero, and the walk ends where the chosen child is null.
\<close>

definition branch_prob :: "QBdtNode option \<Rightarrow> real" where
  "branch_prob b = (case b of None \<Rightarrow> 0 | Some c \<Rightarrow> (Re (scale c))\<^sup>2 + (Im (scale c))\<^sup>2)"









section \<open>Example registers\<close>

text \<open>
  Concrete values for the parameters and three small registers, used where a statement
  is evaluated at an input. \<open>expand\<close> stands in for \<^verbatim>\<open>Branch\<close>: it materialises both
  children down to the given depth, new children with scale 1. The example \<open>commit\<close>
  leaves the tree as it is; the calls stay visible in \<open>applied\<close>. The matrices are the
  Pauli X gate (not diagonal) and the Pauli Z gate (diagonal).
\<close>

fun expand :: "nat \<Rightarrow> QBdtNode \<Rightarrow> QBdtNode" where
  "expand 0 nd = nd"
| "expand (Suc d) nd =
     QBdtNode (scale nd)
       (Some (expand d (case branch0 nd of None \<Rightarrow> QBdtNode 1 None None | Some c \<Rightarrow> c)))
       (Some (expand d (case branch1 nd of None \<Rightarrow> QBdtNode 1 None None | Some c \<Rightarrow> c)))"

definition ex_collab :: collab where
  "ex_collab =
     \<lparr>commit = (\<lambda>m t r. r), IsPhase = (\<lambda>m. m ! 1 = 0 \<and> m ! 2 = 0),
      new_node = QBdtNode 1 None None, Branch = expand,
      PopStateVector = (\<lambda>d r. r), Prune = (\<lambda>d r. r)\<rparr>"

definition ex_reg1 :: QBdt where
  "ex_reg1 =
     \<lparr>qubitCount = 1,
      root = QBdtNode 1 (Some (QBdtNode 1 None None)) (Some (QBdtNode 0 None None)),
      shards = [Some [0, 1, 1, 0]], applied = []\<rparr>"


definition ex_reg65 :: QBdt where
  "ex_reg65 =
     \<lparr>qubitCount = 65, root = QBdtNode 1 None None, shards = replicate 65 None, applied = []\<rparr>"

definition ex_amps :: "int \<Rightarrow> complex" where
  "ex_amps i = (if i = 0 then 0 else 1)"





section \<open>Facts about the shift operators\<close>

lemma fold_overwrite:
  "fold (\<lambda>i r. f i) [0..<Suc n] a = f n"
  by simp

lemma shr_nonneg: "0 \<le> x \<Longrightarrow> shr x sq = x div 2 ^ sq"
  by (cases "x = 0")
     (simp_all add: shr_def mpz_tdiv_q_2exp_def)

lemma shr_neg: "x < 0 \<Longrightarrow> shr x sq = x div 2 ^ sq"
  by (simp add: shr_def mpz_fdiv_q_2exp_def)

lemma shr_eq: "shr x sq = x div 2 ^ sq"
  by (cases "0 \<le> x") (simp_all add: shr_nonneg shr_neg)

lemma shr_assign_eq: "shr_assign x sq = x div 2 ^ sq"
  by (simp add: shr_assign_def mpz_fdiv_q_2exp_def)


section \<open>The zero test\<close>

lemma bi_compare_0_iff: "bi_compare_0 x = 0 \<longleftrightarrow> x \<noteq> 0"
  by (simp add: bi_compare_0_def)

lemma bi_compare_0_bits_iff: "bi_compare_0_bits ws = 0 \<longleftrightarrow> (\<forall>w\<in>set ws. w = 0)"
  by (induction ws) auto

lemma ProbParity_nonzero_mask:
  "msk \<noteq> 0 \<Longrightarrow> ProbParity Prob log2f eng msk = 0"
  by (simp add: ProbParity_def bi_compare_0_def)

lemma ProbParity_zero_mask: "ProbParity Prob log2f eng 0 = eng 0"
  by (simp add: ProbParity_def bi_compare_0_def bi_decrement_def mpz_and_def)

lemma ForceMParity_zero_mask: "ForceMParity ForceM log2f eng 0 r d = eng 0 r d"
  by (simp add: ForceMParity_def bi_compare_0_def bi_decrement_def mpz_and_def)

text \<open>
  C7. The zero test \<^verbatim>\<open>bi_compare_0\<close> is expected to return 0 exactly for the value zero.
  The GMP-only header returns 1 for zero and 0 for every other value: at 0 it returns 1,
  at 5 it returns 0, so \<^verbatim>\<open>ProbParity\<close> of the empty mask goes on to the state-vector
  engine and \<^verbatim>\<open>ProbParity\<close> of the mask 5 returns 0 without looking at the state. The
  word-array header (\<^const>\<open>bi_compare_0_bits\<close>) follows the convention.
\<close>

theorem bi_compare_0_inverted:
  "bi_compare_0 0 = 1 \<and> bi_compare_0 5 = 0 \<and> bi_compare_0_bits [0, 0] = 0
   \<and> bi_compare_0_bits [5, 0] = 1
   \<and> ProbParity Prob log2f eng 0 = eng 0 \<and> ProbParity Prob log2f eng 5 = 0"
  by (simp add: bi_compare_0_def ProbParity_zero_mask ProbParity_nonzero_mask)

section \<open>The base-2 logarithms\<close>

lemma log2_loop_pow: "log2_loop (2 ^ k) r = r + int k + 1"
proof (induction k arbitrary: r)
  case 0
  have "log2_loop 1 r = log2_loop 0 (r + 1)"
    by (subst log2_loop.simps) (simp add: shr_assign_eq)
  also have "\<dots> = r + 1"
    by (subst log2_loop.simps) simp
  finally show ?case by simp
next
  case (Suc k)
  have "log2_loop (2 ^ Suc k) r = log2_loop (2 ^ k) (r + 1)"
    by (subst log2_loop.simps) (simp add: shr_assign_eq)
  then show ?case using Suc.IH [of "r + 1"] by simp
qed

lemma BigInteger_log2_pow: "BigInteger_log2 (2 ^ k) = (if k = 0 then - 1 else int k)"
proof (cases k)
  case 0
  then show ?thesis by (simp add: BigInteger_log2_def shr_eq)
next
  case (Suc j)
  have "shr (2 ^ Suc j) 1 = (2 ^ j :: int)" by (simp add: shr_eq)
  then show ?thesis using Suc by (simp add: BigInteger_log2_def Let_def log2_loop_pow)
qed

lemma bi_log2_loop_zero:
  assumes "bi_log2_loop p pw = Some y"
  shows "p \<noteq> 0"
proof (rule bi_log2_loop.raw_induct [where P = "\<lambda>p pw y. p \<noteq> 0", OF _ assms])
  fix f :: "int \<Rightarrow> int \<Rightarrow> int option" and p pw y
  assume IH: "\<And>p pw y. f p pw = Some y \<Longrightarrow> p \<noteq> 0"
    and eq: "(if bi_compare_0 p \<noteq> 0 then f (bi_rshift_ip p 1) (pw + 1) else Some pw) = Some y"
  show "p \<noteq> 0"
  proof
    assume "p = 0"
    with eq have "f 0 (pw + 1) = Some y"
      by (simp add: bi_compare_0_def bi_rshift_ip_def shr_eq)
    from IH [OF this] show False by simp
  qed
qed

lemma bi_log2_one: "bi_log2 1 = None"
proof (cases "bi_log2 1")
  case None
  then show ?thesis .
next
  case (Some y)
  then have "bi_log2_loop 0 0 = Some y" by (simp add: bi_log2_def shr_eq)
  then show ?thesis using bi_log2_loop_zero by blast
qed

lemma bi_log2_pow: "0 < k \<Longrightarrow> bi_log2 (2 ^ k) = Some 0"
proof -
  assume "0 < k"
  then obtain j where k: "k = Suc j" by (cases k) auto
  have s: "shr (2 ^ k) 1 = (2 ^ j :: int)" by (simp add: shr_eq k)
  have "bi_log2_loop (2 ^ j) 0 = Some 0"
    by (subst bi_log2_loop.simps) (simp add: bi_compare_0_def)
  then show ?thesis
    unfolding bi_log2_def s .
qed

text \<open>
  C8. The logarithm of \<open>2 ^ k\<close> is expected to be \<open>k\<close> for every \<open>k\<close>, with
  \<open>log2 1 = 0\<close>. \<^verbatim>\<open>BigInteger::log2\<close> returns \<open>k\<close> for \<open>k > 0\<close> but -1 at 1, because its
  guard tests the argument already shifted by one. \<^verbatim>\<open>bi_log2\<close> of the GMP-only header
  never leaves its loop at 1 and returns 0 at every larger power of two, because its
  loop condition is the inverted zero test.
\<close>

theorem log2_at_powers_of_two:
  "BigInteger_log2 1 = - 1 \<and> BigInteger_log2 (2 ^ 3) = 3
   \<and> bi_log2 1 = None \<and> bi_log2 (2 ^ 3) = Some 0"
  using BigInteger_log2_pow [of 0] BigInteger_log2_pow [of 3] bi_log2_one bi_log2_pow [of 3]
  by simp

section \<open>Removing one bit of a permutation index\<close>

lemma RemovePower_eq_with: "RemovePower perm pwr = RemovePower_with bi_not perm pwr"
  by (simp add: RemovePower_def RemovePower_with_def)

lemma RemovePower_intended:
  "RemovePower_with NOT perm (2 ^ k) = perm mod 2 ^ k + 2 ^ k * (perm div 2 ^ (k + 1))"
proof -
  have m: "(2 ^ k - 1 :: int) = mask k" by (simp add: mask_eq_exp_minus_1)
  have a: "perm AND mask k = take_bit k perm" by (simp add: take_bit_eq_mask)
  have b: "(perm div 2) AND NOT (mask k) = push_bit k (drop_bit (k + 1) perm)"
  proof -
    have "perm div 2 = drop_bit 1 perm" by (simp add: drop_bit_eq_div)
    moreover have "drop_bit 1 perm AND NOT (mask k) = push_bit k (drop_bit (k + 1) perm)"
      by (rule bit_eqI) (auto simp: bit_simps)
    ultimately show ?thesis by simp
  qed
  have c: "take_bit k perm OR push_bit k (drop_bit (k + 1) perm)
           = take_bit k perm + push_bit k (drop_bit (k + 1) perm)"
    by (rule disjunctive_add [symmetric]) (auto simp: bit_simps)
  have "RemovePower_with NOT perm (2 ^ k)
        = (perm AND mask k) OR ((perm div 2) AND NOT (mask k))"
    by (simp add: RemovePower_with_def Let_def bi_decrement_def mpz_ior_def mpz_and_def shr_eq m)
  also have "\<dots> = take_bit k perm + push_bit k (drop_bit (k + 1) perm)"
    by (simp only: a b c)
  also have "\<dots> = perm mod 2 ^ k + 2 ^ k * (perm div 2 ^ (k + 1))"
    by (simp add: take_bit_eq_mod push_bit_eq_mult drop_bit_eq_div)
  finally show ?thesis .
qed

text \<open>
  C9. \<^verbatim>\<open>RemovePower(perm, 2^k)\<close> is expected to delete bit \<open>k\<close> of \<open>perm\<close>. The operator
  \<^verbatim>\<open>~\<close> of the big integer negates instead of complementing, so the mask applied to the
  shifted index is wrong: for \<open>perm = 2\<close> and \<open>power = 2\<close> the result is 1 where deleting
  bit 1 gives 0, and for \<open>perm = 2\<close> and \<open>power = 1\<close> it is 0 where deleting bit 0 gives 1.
\<close>

theorem RemovePower_negates:
  "RemovePower 2 2 = 1 \<and> 2 mod 2 ^ 1 + 2 ^ 1 * (2 div 2 ^ (1 + 1)) = (0 :: int)
   \<and> RemovePower 2 1 = 0 \<and> 2 mod 2 ^ 0 + 2 ^ 0 * (2 div 2 ^ (0 + 1)) = (1 :: int)"
  by (simp add: RemovePower_def bi_decrement_def mpz_ior_def mpz_and_def shr_eq bi_not_def)

section \<open>The read traversal follows the selected path\<close>

lemma SelectBit_eq: "SelectBit perm b = (if bit perm b then 1 else 0)"
  by (simp add: SelectBit_def bi_and_1_def mpz_tstbit_def shr_eq bit_iff_odd)

lemma branches_SelectBit:
  "branches nd (SelectBit i j) = (if bit i j then branch1 nd else branch0 nd)"
  by (simp add: branches_def SelectBit_eq)

lemma path_scales_hd: "path_scales nd bs = scale nd # tl (path_scales nd bs)"
  by (cases bs) simp_all

lemma prod_path_scales:
  "prod_list (path_scales nd bs) = scale nd * prod_list (tl (path_scales nd bs))"
  by (subst path_scales_hd) simp

lemma GetTraversal_loop_path:
  "GetTraversal_loop n i j leaf sc
     = sc * prod_list (tl (path_scales leaf (map (bit i) [j..<n])))"
proof (induction n i j leaf sc rule: GetTraversal_loop.induct)
  case (1 n i j leaf sc)
  show ?case
  proof (cases "j < n")
    case False
    then show ?thesis by (subst GetTraversal_loop.simps) simp
  next
    case True
    then have upt: "[j..<n] = j # [Suc j..<n]" by (simp add: upt_conv_Cons)
    show ?thesis
    proof (cases "branches leaf (SelectBit i j)")
      case None
      then show ?thesis using True
        by (subst GetTraversal_loop.simps) (simp add: upt branches_SelectBit)
    next
      case (Some l)
      have "GetTraversal_loop n i j leaf sc = GetTraversal_loop n i (j + 1) l (sc * scale l)"
        using True Some by (subst GetTraversal_loop.simps) simp
      also have "\<dots> = sc * scale l * prod_list (tl (path_scales l (map (bit i) [j + 1..<n])))"
        using "1.IH" [OF True Some] .
      also have "\<dots> = sc * prod_list (path_scales l (map (bit i) [Suc j..<n]))"
        using prod_path_scales [of l "map (bit i) [Suc j..<n]"] by (simp add: mult.assoc)
      also have "\<dots> = sc * prod_list (tl (path_scales leaf (map (bit i) [j..<n])))"
        using Some by (simp add: upt branches_SelectBit)
      finally show ?thesis .
    qed
  qed
qed

lemma GetTraversal_worker_path:
  "GetTraversal_worker w n rt i = (bitCapIntOcl_cast w i, path_amplitude rt n i)"
  by (simp add: GetTraversal_worker_def GetTraversal_loop_path path_amplitude_def
      prod_path_scales [symmetric])

lemma FlushBuffer_shape:
  assumes "t < length (shards st)"
  shows "\<exists>st'. FlushBuffer E st t = Some st' \<and> shards st' = (shards st)[t := None]
           \<and> applied st' = applied st @ pending_at st t \<and> qubitCount st' = qubitCount st
           \<and> root st' = foldl (\<lambda>r (g, u). commit E g u r) (root st) (pending_at st t)"
proof (cases "shards st ! t")
  case None
  then have "(shards st)[t := None] = shards st"
    by (metis list_update_id)
  then show ?thesis using assms None by (simp add: FlushBuffer_def pending_at_def)
next
  case (Some g)
  then show ?thesis using assms by (simp add: FlushBuffer_def pending_at_def ApplySingle_def)
qed

lemma flush_each:
  assumes "distinct ts" and "\<forall>t\<in>set ts. t < length (shards st)"
  shows "\<exists>st'. for_each (FlushBuffer E) ts st = Some st'
           \<and> length (shards st') = length (shards st)
           \<and> (\<forall>t<length (shards st). shards st' ! t = (if t \<in> set ts then None else shards st ! t))
           \<and> applied st' = applied st @ concat (map (pending_at st) ts)
           \<and> qubitCount st' = qubitCount st
           \<and> root st' = foldl (\<lambda>r (g, u). commit E g u r) (root st) (concat (map (pending_at st) ts))"
  using assms
proof (induction ts arbitrary: st)
  case Nil
  then show ?case by simp
next
  case (Cons t ts)
  from Cons.prems have t: "t < length (shards st)" by simp
  from FlushBuffer_shape [OF t, of E] obtain s1 where
    s1: "FlushBuffer E st t = Some s1" "shards s1 = (shards st)[t := None]"
        "applied s1 = applied st @ pending_at st t" "qubitCount s1 = qubitCount st"
        "root s1 = foldl (\<lambda>r (g, u). commit E g u r) (root st) (pending_at st t)"
    by blast
  have d: "distinct ts" and r: "\<forall>u\<in>set ts. u < length (shards s1)" and nt: "t \<notin> set ts"
    using Cons.prems s1(2) by auto
  from Cons.IH [OF d r] obtain st' where
    st': "for_each (FlushBuffer E) ts s1 = Some st'"
         "length (shards st') = length (shards s1)"
         "\<forall>u<length (shards s1). shards st' ! u = (if u \<in> set ts then None else shards s1 ! u)"
         "applied st' = applied s1 @ concat (map (pending_at s1) ts)"
         "qubitCount st' = qubitCount s1"
         "root st' = foldl (\<lambda>r (g, u). commit E g u r) (root s1) (concat (map (pending_at s1) ts))"
    by blast
  have pend: "map (pending_at s1) ts = map (pending_at st) ts"
  proof (rule map_cong [OF refl])
    fix u assume "u \<in> set ts"
    then have "u \<noteq> t" using nt by auto
    then show "pending_at s1 u = pending_at st u"
      by (simp add: pending_at_def s1(2))
  qed
  have nth: "\<forall>u<length (shards st). shards st' ! u = (if u \<in> set (t # ts) then None else shards st ! u)"
    using st'(3) s1(2) by (auto simp: nth_list_update)
  show ?case
    using s1 st' pend nth by simp
qed

lemma FlushBuffers_shape:
  "\<exists>st'. FlushBuffers E st = Some st'
     \<and> shards st' = replicate (length (shards st)) None
     \<and> applied st' = applied st @ pending st
     \<and> qubitCount st' = qubitCount st
     \<and> root st' = foldl (\<lambda>r (g, u). commit E g u r) (root st) (pending st)"
proof -
  from flush_each [of "[0..<length (shards st)]" st E] obtain st' where
    st': "for_each (FlushBuffer E) [0..<length (shards st)] st = Some st'"
         "length (shards st') = length (shards st)"
         "\<forall>t<length (shards st). shards st' ! t = (if t \<in> set [0..<length (shards st)] then None else shards st ! t)"
         "applied st' = applied st @ concat (map (pending_at st) [0..<length (shards st)])"
         "qubitCount st' = qubitCount st"
         "root st' = foldl (\<lambda>r (g, u). commit E g u r) (root st)
                       (concat (map (pending_at st) [0..<length (shards st)]))"
    by auto
  have "shards st' = replicate (length (shards st)) None"
    using st'(2,3) by (intro nth_equalityI) auto
  then show ?thesis using st' by (simp add: FlushBuffers_def pending_def)
qed

section \<open>Flushing the shard buffers\<close>



lemma commits_since_append: "applied st' = applied st @ new \<Longrightarrow> commits_since st st' = new"
  by (simp add: commits_since_def)



section \<open>The two traversals\<close>

lemma DumpBuffers_fold:
  "shards (fold (\<lambda>i s. s\<lparr>shards := (shards s)[i := None]\<rparr>) ts st)
     = fold (\<lambda>i xs. xs[i := None]) ts (shards st)
   \<and> applied (fold (\<lambda>i s. s\<lparr>shards := (shards s)[i := None]\<rparr>) ts st) = applied st
   \<and> qubitCount (fold (\<lambda>i s. s\<lparr>shards := (shards s)[i := None]\<rparr>) ts st) = qubitCount st"
  by (induction ts arbitrary: st) simp_all

lemma fold_clear:
  "length (fold (\<lambda>i xs. xs[i := None]) ts xs) = length xs
   \<and> (\<forall>t<length xs. fold (\<lambda>i xs. xs[i := None]) ts xs ! t = (if t \<in> set ts then None else xs ! t))"
  by (induction ts arbitrary: xs) (auto simp: nth_list_update)

lemma DumpBuffers_shape:
  "shards (DumpBuffers st) = replicate (length (shards st)) None
   \<and> applied (DumpBuffers st) = applied st \<and> qubitCount (DumpBuffers st) = qubitCount st"
proof -
  have "fold (\<lambda>i xs. xs[i := None]) [0..<length (shards st)] (shards st)
          = replicate (length (shards st)) None"
    using fold_clear [of "[0..<length (shards st)]" "shards st"]
    by (intro nth_equalityI) auto
  then show ?thesis by (simp add: DumpBuffers_def DumpBuffers_fold)
qed

lemma SetTraversal_frame:
  assumes "SetTraversal E w f st = Some st'"
  shows "shards st' = replicate (length (shards st)) None \<and> applied st' = applied st"
  using assms DumpBuffers_shape [of st]
  by (auto simp: SetTraversal_def Let_def split: option.splits)

lemma GetTraversal_shape:
  "\<exists>st'. GetTraversal E w st =
            Some (st', map (\<lambda>i. (bitCapIntOcl_cast w i, path_amplitude (root st') (qubitCount st) i))
                           (map int [0..<2 ^ qubitCount st]))
     \<and> shards st' = replicate (length (shards st)) None
     \<and> applied st' = applied st @ pending st
     \<and> root st' = foldl (\<lambda>r (g, u). commit E g u r) (root st) (pending st)"
proof -
  from FlushBuffers_shape [of E st] obtain st' where
    st': "FlushBuffers E st = Some st'" "shards st' = replicate (length (shards st)) None"
         "applied st' = applied st @ pending st" "qubitCount st' = qubitCount st"
         "root st' = foldl (\<lambda>r (g, u). commit E g u r) (root st) (pending st)"
    by blast
  have w: "GetTraversal_worker w (qubitCount st) (root st')
             = (\<lambda>i. (bitCapIntOcl_cast w i, path_amplitude (root st') (qubitCount st) i))"
    by (rule ext) (rule GetTraversal_worker_path)
  have n: "nat (2 ^ qubitCount st) = 2 ^ qubitCount st"
    by (simp add: nat_power_eq)
  have "GetTraversal E w st =
          Some (st', map (\<lambda>i. (bitCapIntOcl_cast w i, path_amplitude (root st') (qubitCount st) i))
                         (map int [0..<2 ^ qubitCount st]))"
    using st'(1,4) by (simp add: GetTraversal_def maxQPower_def par_for_indices_def w n)
  then show ?thesis using st'(2,3,5) by blast
qed

lemma cast_small:
  assumes "n \<le> w" and "k < 2 ^ n"
  shows "bitCapIntOcl_cast w (int k) = int k"
proof -
  have "(2::nat) ^ n \<le> 2 ^ w" using assms(1) by simp
  then have "k < 2 ^ w" using assms(2) by linarith
  then have "int k < 2 ^ w" by (metis of_nat_less_iff of_nat_numeral of_nat_power)
  then show ?thesis by (simp add: bitCapIntOcl_cast_def)
qed

text \<open>
  C2 (amended). \<^verbatim>\<open>GetTraversal\<close> always returns. It first flushes every pending shard
  buffer: afterwards no buffer is pending, the calls of \<^verbatim>\<open>ApplySingle\<close> made are exactly
  the pending buffers in index order, and the tree is the old one with those matrices
  committed. Then, for every permutation index \<open>i\<close> in \<open>[0, 2^n)\<close>, the sink receives the
  pair of \<^verbatim>\<open>(bitCapIntOcl)i\<close> and the product of the scales on the path that the bits of
  \<open>i\<close> select from the root, the walk ending at a null child. The delivered index is
  \<open>i\<close> itself whenever the register has at most as many qubits as \<^verbatim>\<open>bitCapIntOcl\<close> has
  bits.
\<close>

theorem GetTraversal_delivers:
  "\<exists>st' out. GetTraversal E w st = Some (st', out)
     \<and> shards st' = replicate (length (shards st)) None
     \<and> commits_since st st' = pending st
     \<and> root st' = foldl (\<lambda>r (g, u). commit E g u r) (root st) (pending st)
     \<and> out = map (\<lambda>i. (bitCapIntOcl_cast w i, path_amplitude (root st') (qubitCount st) i))
                  (map int [0..<2 ^ qubitCount st])
     \<and> (qubitCount st \<le> w \<longrightarrow>
          out = map (\<lambda>i. (i, path_amplitude (root st') (qubitCount st) i))
                    (map int [0..<2 ^ qubitCount st]))"
proof -
  from GetTraversal_shape [of E w st] obtain st' where
    st': "GetTraversal E w st =
            Some (st', map (\<lambda>i. (bitCapIntOcl_cast w i, path_amplitude (root st') (qubitCount st) i))
                           (map int [0..<2 ^ qubitCount st]))"
         "shards st' = replicate (length (shards st)) None"
         "applied st' = applied st @ pending st"
         "root st' = foldl (\<lambda>r (g, u). commit E g u r) (root st) (pending st)"
    by blast
  have "qubitCount st \<le> w \<Longrightarrow>
          map (\<lambda>i. (bitCapIntOcl_cast w i, path_amplitude (root st') (qubitCount st) i))
              (map int [0..<2 ^ qubitCount st])
          = map (\<lambda>i. (i, path_amplitude (root st') (qubitCount st) i))
                (map int [0..<2 ^ qubitCount st])"
    by (auto simp: cast_small)
  then show ?thesis
    using st' commits_since_append [OF st'(3)] by blast
qed

text \<open>The statement at a one-qubit register with a pending X gate and 64-bit indices.\<close>

theorem GetTraversal_delivers_witness:
  "qubitCount ex_reg1 \<le> 64
   \<and> (\<exists>st'. GetTraversal ex_collab 64 ex_reg1 = Some (st', [(0, 1), (1, 0)])
         \<and> shards st' = [None] \<and> commits_since ex_reg1 st' = [([0, 1, 1, 0], 0)])"
proof -
  have q: "qubitCount ex_reg1 \<le> 64" by (simp add: ex_reg1_def)
  have p: "pending ex_reg1 = [([0, 1, 1, 0], 0)]"
    by (simp add: pending_def pending_at_def ex_reg1_def)
  from GetTraversal_delivers [of ex_collab 64 ex_reg1] obtain st' out where
    st': "GetTraversal ex_collab 64 ex_reg1 = Some (st', out)"
         "shards st' = replicate (length (shards ex_reg1)) None"
         "commits_since ex_reg1 st' = pending ex_reg1"
         "root st' = foldl (\<lambda>r (g, u). commit ex_collab g u r) (root ex_reg1) (pending ex_reg1)"
         "qubitCount ex_reg1 \<le> 64 \<longrightarrow>
            out = map (\<lambda>i. (i, path_amplitude (root st') (qubitCount ex_reg1) i))
                      (map int [0..<2 ^ qubitCount ex_reg1])"
    by blast
  have r: "root st' = QBdtNode 1 (Some (QBdtNode 1 None None)) (Some (QBdtNode 0 None None))"
    using st'(4) by (simp add: p) (simp add: ex_collab_def ex_reg1_def)
  have i: "map int [0..<2 ^ qubitCount ex_reg1] = [0, 1]"
    unfolding ex_reg1_def by code_simp
  have "out = [(0, 1), (1, 0)]"
    using st'(5) q unfolding i r by (simp add: ex_reg1_def path_amplitude_def)
  then show ?thesis
    using q st'(1,2,3) p by (simp add: ex_reg1_def)
qed

text \<open>
  C2 as stated fails for a register wider than \<^verbatim>\<open>bitCapIntOcl\<close>: with 65 qubits and
  64-bit indices the index \<open>2^64\<close> lies in \<open>[0, 2^65)\<close>, and no pair handed to the sink
  carries it.
\<close>

theorem GetTraversal_index_truncated:
  "GetTraversal ex_collab 64 ex_reg65 \<noteq> None
   \<and> (2 ^ 64 :: int) \<in> {0..<2 ^ qubitCount ex_reg65}
   \<and> 2 ^ 64 \<notin> fst ` set (snd (the (GetTraversal ex_collab 64 ex_reg65)))"
proof -
  from GetTraversal_shape [of ex_collab 64 ex_reg65] obtain st' where
    st': "GetTraversal ex_collab 64 ex_reg65 =
            Some (st', map (\<lambda>i. (bitCapIntOcl_cast 64 i,
                                   path_amplitude (root st') (qubitCount ex_reg65) i))
                           (map int [0..<2 ^ qubitCount ex_reg65]))"
    by blast
  have "\<forall>x \<in> fst ` set (snd (the (GetTraversal ex_collab 64 ex_reg65))). x < 2 ^ 64"
    unfolding st' by (auto simp: bitCapIntOcl_cast_def)
  then have "2 ^ 64 \<notin> fst ` set (snd (the (GetTraversal ex_collab 64 ex_reg65)))"
    by force
  moreover have "(2 ^ 64 :: int) \<in> {0..<2 ^ qubitCount ex_reg65}"
    by (simp add: ex_reg65_def)
  ultimately show ?thesis using st' by simp
qed

lemma SetTraversal_leaf_end:
  "\<not> j < n \<Longrightarrow> SetTraversal_leaf n i j f nd = Some (f nd)"
  by (subst SetTraversal_leaf.simps) simp

lemma SetTraversal_leaf_step:
  "j < n \<Longrightarrow> SetTraversal_leaf n i j f nd =
     (case branches nd (SelectBit i j) of
        None \<Rightarrow> None
      | Some l \<Rightarrow> map_option (set_branch nd (SelectBit i j)) (SetTraversal_leaf n i (j + 1) f l))"
  by (subst SetTraversal_leaf.simps) simp

lemma ex_set_run:
  "SetQuantumState ex_collab 64 ex_amps ex_reg1 =
     Some \<lparr>qubitCount = 1,
           root = QBdtNode 1 (Some (QBdtNode 0 None None)) (Some (QBdtNode 1 None None)),
           shards = [None], applied = []\<rparr>"
proof -
  have i: "par_for_indices 2 = [0, 1]"
    unfolding par_for_indices_def by code_simp
  have b: "SelectBit 0 0 = 0" "SelectBit 1 0 = 1"
    by (simp_all add: SelectBit_eq)
  have c: "bitCapIntOcl_cast 64 0 = 0" "bitCapIntOcl_cast 64 1 = 1"
    by (simp_all add: bitCapIntOcl_cast_def)
  have d: "DumpBuffers ex_reg1 = ex_reg1\<lparr>shards := [None]\<rparr>"
    by (simp add: DumpBuffers_def ex_reg1_def)
  show ?thesis
    unfolding SetQuantumState_def SetTraversal_def d
    by (simp add: ex_reg1_def ex_collab_def maxQPower_def Let_def i b c set_scale_def ex_amps_def
        SetTraversal_leaf_end SetTraversal_leaf_step branches_def set_branch_def)
qed

lemma DumpBuffers_fold_eq:
  "fold (\<lambda>i s. s\<lparr>shards := (shards s)[i := None]\<rparr>) ts st
     = st\<lparr>shards := fold (\<lambda>i xs. xs[i := None]) ts (shards st)\<rparr>"
  by (induction ts arbitrary: st) simp_all

lemma DumpBuffers_eq:
  "DumpBuffers st = st\<lparr>shards := replicate (length (shards st)) None\<rparr>"
proof -
  have "fold (\<lambda>i xs. xs[i := None]) [0..<length (shards st)] (shards st)
          = replicate (length (shards st)) None"
    using fold_clear [of "[0..<length (shards st)]" "shards st"]
    by (intro nth_equalityI) auto
  then show ?thesis by (simp add: DumpBuffers_def DumpBuffers_fold_eq)
qed

lemma SetTraversal_unfold:
  "SetTraversal E w f st =
     (case for_each (\<lambda>rt i. SetTraversal_leaf (qubitCount st) i 0 (f (bitCapIntOcl_cast w i)) rt)
             (map int [0..<2 ^ qubitCount st]) (Branch E (qubitCount st) (new_node E)) of
        None \<Rightarrow> None
      | Some rt \<Rightarrow>
          Some (st\<lparr>shards := replicate (length (shards st)) None,
                    root := Prune E (qubitCount st) (PopStateVector E (qubitCount st) rt)\<rparr>))"
proof -
  have n: "nat (2 ^ qubitCount st) = 2 ^ qubitCount st"
    by (simp add: nat_power_eq)
  show ?thesis
    by (simp add: SetTraversal_def DumpBuffers_eq Let_def maxQPower_def par_for_indices_def n
        split: option.splits)
qed

lemma SetTraversal_old_tree_unused:
  assumes "length sh = length (shards st)"
  shows "SetTraversal E w f (st\<lparr>root := r, shards := sh\<rparr>) = SetTraversal E w f st"
  using assms by (simp add: SetTraversal_unfold split: option.splits)

lemma GetTraversal_shape_count:
  "\<exists>st'. GetTraversal E w st =
            Some (st', map (\<lambda>i. (bitCapIntOcl_cast w i, path_amplitude (root st') (qubitCount st) i))
                           (map int [0..<2 ^ qubitCount st]))
     \<and> shards st' = replicate (length (shards st)) None
     \<and> applied st' = applied st @ pending st
     \<and> root st' = foldl (\<lambda>r (g, u). commit E g u r) (root st) (pending st)
     \<and> qubitCount st' = qubitCount st"
proof -
  from FlushBuffers_shape [of E st] obtain s1 where
    s1: "FlushBuffers E st = Some s1" "qubitCount s1 = qubitCount st"
    by blast
  from GetTraversal_shape [of E w st] obtain st' where
    st': "GetTraversal E w st =
            Some (st', map (\<lambda>i. (bitCapIntOcl_cast w i, path_amplitude (root st') (qubitCount st) i))
                           (map int [0..<2 ^ qubitCount st]))"
         "shards st' = replicate (length (shards st)) None"
         "applied st' = applied st @ pending st"
         "root st' = foldl (\<lambda>r (g, u). commit E g u r) (root st) (pending st)"
    by blast
  have "st' = s1" using st'(1) s1(1) by (simp add: GetTraversal_def)
  then show ?thesis using st' s1(2) by blast
qed

text \<open>
  C4 (amended). The read direction commits: \<^verbatim>\<open>GetTraversal\<close> returns, it has called
  \<^verbatim>\<open>ApplySingle\<close> for every pending buffer, in index order, it leaves no buffer pending,
  and the amplitudes it delivers are the path products of the committed tree, so the
  commits come before the read. The write direction discards: whenever \<^verbatim>\<open>SetTraversal\<close>
  returns, every buffer is cleared, \<^verbatim>\<open>ApplySingle\<close> has not been called at all, and the
  tree is a freshly built one: a new root, expanded by \<^verbatim>\<open>Branch\<close>, with the leaves
  written for every permutation index, then passed through \<^verbatim>\<open>PopStateVector\<close> and
  \<^verbatim>\<open>Prune\<close>. Neither the old tree nor the old buffers have any influence on the result.
\<close>

theorem traversal_flush_or_dump:
  "(\<exists>st'. GetTraversal E w st =
            Some (st', map (\<lambda>i. (bitCapIntOcl_cast w i,
                                   path_amplitude (root st') (qubitCount st) i))
                           (map int [0..<2 ^ qubitCount st]))
       \<and> shards st' = replicate (length (shards st)) None
       \<and> commits_since st st' = pending st
       \<and> root st' = foldl (\<lambda>r (g, u). commit E g u r) (root st) (pending st)
       \<and> qubitCount st' = qubitCount st)
   \<and> (\<forall>st'. SetTraversal E w f st = Some st' \<longrightarrow>
         shards st' = replicate (length (shards st)) None
         \<and> applied st' = applied st \<and> commits_since st st' = []
         \<and> qubitCount st' = qubitCount st
         \<and> (\<exists>rt. for_each
                     (\<lambda>rt i. SetTraversal_leaf (qubitCount st) i 0 (f (bitCapIntOcl_cast w i)) rt)
                     (map int [0..<2 ^ qubitCount st])
                     (Branch E (qubitCount st) (new_node E)) = Some rt
                \<and> root st' = Prune E (qubitCount st) (PopStateVector E (qubitCount st) rt)))
   \<and> (\<forall>r sh. length sh = length (shards st) \<longrightarrow>
         SetTraversal E w f (st\<lparr>root := r, shards := sh\<rparr>) = SetTraversal E w f st)"
proof (intro conjI)
  from GetTraversal_shape_count [of E w st] obtain st' where
    st': "GetTraversal E w st =
            Some (st', map (\<lambda>i. (bitCapIntOcl_cast w i, path_amplitude (root st') (qubitCount st) i))
                           (map int [0..<2 ^ qubitCount st]))"
         "shards st' = replicate (length (shards st)) None"
         "applied st' = applied st @ pending st"
         "root st' = foldl (\<lambda>r (g, u). commit E g u r) (root st) (pending st)"
         "qubitCount st' = qubitCount st"
    by blast
  show "\<exists>st'. GetTraversal E w st =
            Some (st', map (\<lambda>i. (bitCapIntOcl_cast w i,
                                   path_amplitude (root st') (qubitCount st) i))
                           (map int [0..<2 ^ qubitCount st]))
       \<and> shards st' = replicate (length (shards st)) None
       \<and> commits_since st st' = pending st
       \<and> root st' = foldl (\<lambda>r (g, u). commit E g u r) (root st) (pending st)
       \<and> qubitCount st' = qubitCount st"
    using st' commits_since_append [OF st'(3)] by blast
next
  show "\<forall>st'. SetTraversal E w f st = Some st' \<longrightarrow>
         shards st' = replicate (length (shards st)) None
         \<and> applied st' = applied st \<and> commits_since st st' = []
         \<and> qubitCount st' = qubitCount st
         \<and> (\<exists>rt. for_each
                     (\<lambda>rt i. SetTraversal_leaf (qubitCount st) i 0 (f (bitCapIntOcl_cast w i)) rt)
                     (map int [0..<2 ^ qubitCount st])
                     (Branch E (qubitCount st) (new_node E)) = Some rt
                \<and> root st' = Prune E (qubitCount st) (PopStateVector E (qubitCount st) rt))"
    by (auto simp: SetTraversal_unfold commits_since_def split: option.splits)
next
  show "\<forall>r sh. length sh = length (shards st) \<longrightarrow>
         SetTraversal E w f (st\<lparr>root := r, shards := sh\<rparr>) = SetTraversal E w f st"
    using SetTraversal_old_tree_unused by blast
qed

text \<open>
  The write direction at the one-qubit register with an X gate pending: it returns, the
  tree is the one built from the new amplitudes, and the same call on a register with
  another tree and no pending gate gives the same result.
\<close>

theorem traversal_flush_or_dump_witness:
  "SetQuantumState ex_collab 64 ex_amps ex_reg1 \<noteq> None
   \<and> shards (the (SetQuantumState ex_collab 64 ex_amps ex_reg1)) = [None]
   \<and> commits_since ex_reg1 (the (SetQuantumState ex_collab 64 ex_amps ex_reg1)) = []
   \<and> root (the (SetQuantumState ex_collab 64 ex_amps ex_reg1)) =
        QBdtNode 1 (Some (QBdtNode 0 None None)) (Some (QBdtNode 1 None None))
   \<and> length [None :: mtrx option] = length (shards ex_reg1)
   \<and> SetQuantumState ex_collab 64 ex_amps
        (ex_reg1\<lparr>root := QBdtNode 0 None None, shards := [None]\<rparr>)
      = SetQuantumState ex_collab 64 ex_amps ex_reg1"
proof -
  let ?f = "\<lambda>i leaf. set_scale (ex_amps i) leaf"
  note t = traversal_flush_or_dump [of ex_collab 64 ex_reg1 ?f]
  obtain st' where s: "SetQuantumState ex_collab 64 ex_amps ex_reg1 = Some st'"
    using ex_set_run by blast
  then have r: "SetTraversal ex_collab 64 ?f ex_reg1 = Some st'"
    by (simp add: SetQuantumState_def)
  from t r have a: "shards st' = replicate (length (shards ex_reg1)) None"
    and b: "commits_since ex_reg1 st' = []"
    by blast+
  have l: "length [None :: mtrx option] = length (shards ex_reg1)"
    by (simp add: ex_reg1_def)
  from t l have c: "SetTraversal ex_collab 64 ?f
        (ex_reg1\<lparr>root := QBdtNode 0 None None, shards := [None]\<rparr>)
      = SetTraversal ex_collab 64 ?f ex_reg1"
    by blast
  have rt: "root st' = QBdtNode 1 (Some (QBdtNode 0 None None)) (Some (QBdtNode 1 None None))"
    using s by (auto simp: ex_set_run)
  show ?thesis
    using s a b l c rt by (simp add: SetQuantumState_def ex_reg1_def)
qed

text \<open>
  C4 as stated fails for the write direction: the one-qubit register has an X gate
  pending on qubit 0, \<^verbatim>\<open>SetQuantumState\<close> returns, and that gate was never committed.
\<close>

theorem SetTraversal_discards_pending:
  "([0, 1, 1, 0], 0) \<in> set (pending ex_reg1)
   \<and> SetQuantumState ex_collab 64 ex_amps ex_reg1 \<noteq> None
   \<and> ([0, 1, 1, 0], 0) \<notin> set (applied (the (SetQuantumState ex_collab 64 ex_amps ex_reg1)))"
  by (simp add: ex_set_run) (simp add: pending_def pending_at_def ex_reg1_def)


section \<open>Sampling flushes and reads, collapse mutates the tree to the sampled path\<close>











lemma branch_prob_nonneg: "0 \<le> branch_prob b"
  by (cases b) (simp_all add: branch_prob_def)













end
